theory Spec2Isabelle
  imports Main "HOL-Library.Sublist"
begin

section \<open>The proxy router of server.js\<close>

text \<open>
  The development follows the latest \<^verbatim>\<open>server.js\<close> of the repository (the variant with
  the tenant list \<^verbatim>\<open>proxiedApps\<close>, the affinity cookie and the redirect fix). Every
  JavaScript callback of that file is one definition below, with the source's names.

  The callbacks are driven by libraries that are not part of the repository: Express 4
  (\<^verbatim>\<open>app.get\<close>, \<^verbatim>\<open>app.use\<close>, \<^verbatim>\<open>req.path\<close>, the order of the middleware stack),
  http-proxy-middleware (\<^verbatim>\<open>pathRewrite\<close>), http-proxy (the path that is finally sent to the
  target, the headers copied from the backend) and Node's \<^verbatim>\<open>url.parse\<close>. Their part is
  written out from their behaviour, each in a definition of its own (\<open>reqPath\<close>,
  \<open>homepageRoute\<close>, \<open>mountMatch\<close>, \<open>pathRewrite\<close>, \<open>urlParsePath\<close>, \<open>urlJoin\<close>).

  The domain of the model: request targets in origin form (\<^verbatim>\<open>/path?query\<close>), whose
  fragment and backslashes are treated as \<^verbatim>\<open>url.parse\<close> treats them, without the
  characters that \<^verbatim>\<open>url.parse\<close> escapes; and tenant prefixes that are literal text, with no
  character that means something to a route pattern or to a regular expression. The
  predicates \<open>originForm\<close> and \<open>literalPrefix\<close> below confine a statement about every
  request or every registry to targets and prefixes on which the libraries do nothing
  else. The model describes a request that \<^verbatim>\<open>express.static\<close> has passed on (no file of
  \<^verbatim>\<open>public/\<close> answers it). Of a backend's headers it has \<^verbatim>\<open>Location\<close> and
  \<^verbatim>\<open>Set-Cookie\<close>.
\<close>

subsection \<open>JavaScript strings\<close>

definition startsWith :: "string \<Rightarrow> string \<Rightarrow> bool" where
  "startsWith s p = prefix p s"

definition includesStr :: "string \<Rightarrow> string \<Rightarrow> bool" where
  "includesStr s p = sublist p s"

text \<open>A header or cookie that is absent is \<open>None\<close>; the empty string is falsy as well.\<close>

fun truthy :: "string option \<Rightarrow> bool" where
  "truthy None = False"
| "truthy (Some s) = (s \<noteq> [])"

text \<open>\<^verbatim>\<open>s.replace(pat, rep)\<close> with a string pattern: the first occurrence only.\<close>

fun replaceFirst :: "string \<Rightarrow> string \<Rightarrow> string \<Rightarrow> string" where
  "replaceFirst pat rep [] = (if pat = [] then rep else [])"
| "replaceFirst pat rep (c # cs) =
     (if prefix pat (c # cs) then rep @ drop (length pat) (c # cs)
      else c # replaceFirst pat rep cs)"

text \<open>\<^verbatim>\<open>s.replace(/\/+/g, '/')\<close>: every run of slashes becomes one slash.\<close>

fun collapseSlashes :: "string \<Rightarrow> string" where
  "collapseSlashes (a # b # cs) =
     (if a = CHR ''/'' \<and> b = CHR ''/'' then collapseSlashes (b # cs)
      else a # collapseSlashes (b # cs))"
| "collapseSlashes cs = cs"

definition toLowerCase :: "char \<Rightarrow> char" where
  "toLowerCase c =
     (case map_of (zip ''ABCDEFGHIJKLMNOPQRSTUVWXYZ'' ''abcdefghijklmnopqrstuvwxyz'') c of
        Some d \<Rightarrow> d
      | None \<Rightarrow> c)"

subsection \<open>Tenant registry\<close>

record appConfig =
  name :: string
  path :: string
  target :: string

definition proxiedApps :: "appConfig list" where
  "proxiedApps =
     [\<lparr>name = ''Movie Hub'', path = ''/movie-hub'', target = ''http://34.134.191.116:4002''\<rparr>,
      \<lparr>name = ''Todo List'', path = ''/todo-list'', target = ''http://34.134.191.116:3001''\<rparr>,
      \<lparr>name = ''YouTube AI Quizzer'', path = ''/youtube-ai-quizzer'',
         target = ''http://34.134.191.116:5001''\<rparr>,
      \<lparr>name = ''AI MCQ Generator'', path = ''/mcq'', target = ''http://34.134.191.116:5002''\<rparr>,
      \<lparr>name = ''Bookmark Manager'', path = ''/bookmark-manager'',
         target = ''http://34.134.191.116:5003''\<rparr>]"

subsection \<open>Requests, backend responses, cookies\<close>

text \<open>
  \<open>httpMethod\<close> is \<^verbatim>\<open>req.method\<close>, \<open>referer\<close> is \<^verbatim>\<open>req.headers.referer\<close>,
  \<open>cookie\<close> is \<^verbatim>\<open>req.cookies['x-proxied-app']\<close> as cookie-parser leaves it.
\<close>

record request =
  httpMethod :: string
  originalUrl :: string
  referer :: "string option"
  cookie :: "string option"

text \<open>
  \<open>pathname\<close> is what precedes the first \<^verbatim>\<open>?\<close>. \<^verbatim>\<open>url.parse\<close> drops the fragment and
  turns the backslashes that precede the query string into slashes: \<open>urlParsePathname\<close>
  and \<open>urlParsePath\<close> are its \<^verbatim>\<open>pathname\<close> and its \<^verbatim>\<open>path\<close> (the path name with the
  query string).
\<close>

definition pathname :: "string \<Rightarrow> string" where
  "pathname url = takeWhile (\<lambda>c. c \<noteq> CHR ''?'') url"

definition stripFragment :: "string \<Rightarrow> string" where
  "stripFragment url = takeWhile (\<lambda>c. c \<noteq> CHR ''#'') url"

definition forwardSlashes :: "string \<Rightarrow> string" where
  "forwardSlashes s = map (\<lambda>c. if c = CHR 0x5C then CHR ''/'' else c) s"

definition urlParsePathname :: "string \<Rightarrow> string" where
  "urlParsePathname url = forwardSlashes (pathname (stripFragment url))"

definition urlParsePath :: "string \<Rightarrow> string" where
  "urlParsePath url =
     urlParsePathname url @ dropWhile (\<lambda>c. c \<noteq> CHR ''?'') (stripFragment url)"

text \<open>
  \<^verbatim>\<open>req.path\<close> is the path name of \<^verbatim>\<open>req.originalUrl\<close> (no middleware of the source
  changes \<^verbatim>\<open>req.url\<close> before \<^verbatim>\<open>req.path\<close> is read). Express cuts a target that begins
  with a slash at its first \<^verbatim>\<open>?\<close> by itself, and hands a target with a \<^verbatim>\<open>#\<close> in it to
  \<^verbatim>\<open>url.parse\<close>.
\<close>

definition reqPath :: "request \<Rightarrow> string" where
  "reqPath req =
     (if CHR ''#'' \<in> set (originalUrl req) then urlParsePathname (originalUrl req)
      else pathname (originalUrl req))"

text \<open>
  The backend's answer as \<open>onProxyRes\<close> receives it: the status, the \<^verbatim>\<open>Location\<close>
  header, and the values of its \<^verbatim>\<open>Set-Cookie\<close> headers (none when the list is empty).
\<close>

record proxyRes =
  statusCode :: int
  location :: "string option"
  setCookies :: "string list"

text \<open>The arguments of \<^verbatim>\<open>res.cookie(name, value, options)\<close>; \<open>maxAge\<close> is in milliseconds.\<close>

record setCookie =
  cookieName :: string
  cookieValue :: string
  maxAge :: int
  httpOnly :: bool
  cookiePath :: string

subsection \<open>Redirect fix: \<^verbatim>\<open>commonProxyOptions.onProxyRes\<close>\<close>

definition appPrefix :: "appConfig list \<Rightarrow> request \<Rightarrow> string option" where
  "appPrefix apps req =
     (case find (\<lambda>appConfig. startsWith (originalUrl req) (path appConfig)) apps of
        Some matchedAppByPath \<Rightarrow> Some (path matchedAppByPath)
      | None \<Rightarrow>
          (case referer req of
             Some r \<Rightarrow>
               (if r \<noteq> [] then
                  (case find (\<lambda>appConfig. includesStr r (path appConfig)) apps of
                     Some matchedAppByReferer \<Rightarrow> Some (path matchedAppByReferer)
                   | None \<Rightarrow> None)
                else if truthy (cookie req) then
                  (case find (\<lambda>appConfig. Some (path appConfig) = cookie req) apps of
                     Some matchedAppByCookie \<Rightarrow> Some (path matchedAppByCookie)
                   | None \<Rightarrow> None)
                else None)
           | None \<Rightarrow>
               (if truthy (cookie req) then
                  (case find (\<lambda>appConfig. Some (path appConfig) = cookie req) apps of
                     Some matchedAppByCookie \<Rightarrow> Some (path matchedAppByCookie)
                   | None \<Rightarrow> None)
                else None)))"

definition onProxyRes :: "appConfig list \<Rightarrow> request \<Rightarrow> proxyRes \<Rightarrow> proxyRes" where
  "onProxyRes apps req pres =
     (if 300 \<le> statusCode pres \<and> statusCode pres < 400 \<and> truthy (location pres) then
        (case location pres of
           None \<Rightarrow> pres
         | Some originalLocation \<Rightarrow>
             (if startsWith originalLocation ''/'' then
                (case appPrefix apps req of
                   None \<Rightarrow> pres
                 | Some p \<Rightarrow>
                     (if p \<noteq> [] then pres\<lparr>location := Some (p @ originalLocation)\<rparr>
                      else pres))
              else pres))
      else pres)"

subsection \<open>What the libraries do with the configuration\<close>

text \<open>
  \<^verbatim>\<open>app.get('/', ...)\<close>: Express runs a GET route for GET and for HEAD, on the path
  without its query string.
\<close>

definition homepageRoute :: "request \<Rightarrow> bool" where
  "homepageRoute req =
     ((httpMethod req = ''GET'' \<or> httpMethod req = ''HEAD'') \<and> reqPath req = ''/'')"

text \<open>
  \<^verbatim>\<open>app.use(prefix, ...)\<close>: Express matches the mount path against the beginning of
  \<^verbatim>\<open>req.path\<close>, ignoring the case of letters, and only where the prefix ends the path
  or is followed by a slash. A slash that ends the prefix is optional in the path, so the
  prefix counts without it (\<open>mountPrefix\<close>).
\<close>

definition mountPrefix :: "string \<Rightarrow> string" where
  "mountPrefix p = (if p \<noteq> [] \<and> last p = CHR ''/'' then butlast p else p)"

definition mountMatch :: "string \<Rightarrow> string \<Rightarrow> bool" where
  "mountMatch p s =
     (map toLowerCase (take (length (mountPrefix p)) s) = map toLowerCase (mountPrefix p) \<and>
      (case drop (length (mountPrefix p)) s of [] \<Rightarrow> True | c # _ \<Rightarrow> c = CHR ''/''))"

text \<open>
  \<^verbatim>\<open>pathRewrite: { [`^${appConfig.path}`]: '/' }\<close>: http-proxy-middleware tests the
  regular expression on the request's original URL and replaces its match by \<^verbatim>\<open>/\<close>.
\<close>

definition pathRewrite :: "string \<Rightarrow> string \<Rightarrow> string" where
  "pathRewrite p url = (if prefix p url then ''/'' @ drop (length p) url else url)"

text \<open>
  http-proxy sends \<^verbatim>\<open>urlJoin(target.path, url.parse(req.url).path)\<close>, where
  \<^verbatim>\<open>target.path\<close> is \<^verbatim>\<open>/\<close> for every target of the source (they have no path of their
  own). \<^verbatim>\<open>urlJoin\<close> leaves the query string alone, joins the rest with \<^verbatim>\<open>/\<close>, collapses
  runs of slashes and restores the two slashes of a scheme.
\<close>

definition urlJoin :: "string \<Rightarrow> string \<Rightarrow> string" where
  "urlJoin targetPath url =
     (let lastSeg = pathname url;
          query = dropWhile (\<lambda>c. c \<noteq> CHR ''?'') url;
          joined = (if targetPath = [] then lastSeg
                    else if lastSeg = [] then targetPath
                    else targetPath @ ''/'' @ lastSeg)
      in replaceFirst ''https:/'' ''https://''
           (replaceFirst ''http:/'' ''http://'' (collapseSlashes joined)) @ query)"

definition outgoingPath :: "string \<Rightarrow> string" where
  "outgoingPath url = urlJoin ''/'' (urlParsePath url)"

subsection \<open>The middleware stack\<close>

text \<open>
  What becomes of a request: the landing page, a request forwarded to a target with the
  path that is sent there (and the cookie written on the response before forwarding), or
  the 404 handler's answer.
\<close>

datatype outcome =
    Homepage
  | Forward "setCookie option" string string
  | NotFound

definition affinityCookie :: "string \<Rightarrow> setCookie" where
  "affinityCookie v =
     \<lparr>cookieName = ''x-proxied-app'', cookieValue = v, maxAge = 3600000,
      httpOnly = True, cookiePath = ''/''\<rparr>"

text \<open>The four ways out of the dynamic fallback middleware, in the source's order.\<close>

datatype fallbackResult =
    HomepageCarveOut
  | ExplicitProxiedPath
  | Routed appConfig
  | Unresolved

definition sourceAppConfig :: "appConfig list \<Rightarrow> request \<Rightarrow> appConfig option" where
  "sourceAppConfig apps req =
     (let byReferer =
            (case referer req of
               Some r \<Rightarrow>
                 (if r \<noteq> [] then find (\<lambda>appConfig. includesStr r (path appConfig)) apps
                  else None)
             | None \<Rightarrow> None)
      in if byReferer = None \<and> truthy (cookie req)
         then find (\<lambda>appConfig. Some (path appConfig) = cookie req) apps
         else byReferer)"

definition fallback :: "appConfig list \<Rightarrow> request \<Rightarrow> fallbackResult" where
  "fallback apps req =
     (if httpMethod req = ''GET'' \<and> reqPath req = ''/'' then HomepageCarveOut
      else if list_ex (\<lambda>appConfig. startsWith (originalUrl req) (path appConfig)) apps
      then ExplicitProxiedPath
      else (case sourceAppConfig apps req of
              Some a \<Rightarrow> Routed a
            | None \<Rightarrow> Unresolved))"

text \<open>
  The layers of the Express stack, in the order the source registers them:
  \<^verbatim>\<open>app.get('/')\<close>, one \<^verbatim>\<open>app.use(appConfig.path, ...)\<close> for each tenant, the dynamic
  fallback, the 404 handler.
\<close>

datatype layer =
    HomepageRoute
  | ExplicitProxy appConfig
  | FallbackProxy
  | NotFoundHandler

fun matches :: "layer \<Rightarrow> request \<Rightarrow> bool" where
  "matches HomepageRoute req = homepageRoute req"
| "matches (ExplicitProxy appConfig) req = mountMatch (path appConfig) (reqPath req)"
| "matches FallbackProxy req = True"
| "matches NotFoundHandler req = True"

text \<open>A layer's handler either ends the request (\<open>Some\<close>) or calls \<^verbatim>\<open>next()\<close> (\<open>None\<close>).\<close>

fun handler :: "appConfig list \<Rightarrow> layer \<Rightarrow> request \<Rightarrow> outcome option" where
  "handler apps HomepageRoute req = Some Homepage"
| "handler apps (ExplicitProxy appConfig) req =
     Some (Forward (Some (affinityCookie (path appConfig))) (target appConfig)
             (outgoingPath (pathRewrite (path appConfig) (originalUrl req))))"
| "handler apps FallbackProxy req =
     (case fallback apps req of
        Routed a \<Rightarrow> Some (Forward None (target a) (outgoingPath (originalUrl req)))
      | _ \<Rightarrow> None)"
| "handler apps NotFoundHandler req = Some NotFound"

definition stack :: "appConfig list \<Rightarrow> layer list" where
  "stack apps = HomepageRoute # map ExplicitProxy apps @ [FallbackProxy, NotFoundHandler]"

text \<open>
  \<open>dispatch\<close> walks the stack; \<open>invoked\<close> lists the layers whose handler ran. A
  request that falls off the end of a stack gets Express's own 404, which the source's
  stack never reaches, its last layer answering everything.
\<close>

fun dispatch :: "appConfig list \<Rightarrow> layer list \<Rightarrow> request \<Rightarrow> outcome" where
  "dispatch apps [] req = NotFound"
| "dispatch apps (l # ls) req =
     (if matches l req then
        (case handler apps l req of
           Some out \<Rightarrow> out
         | None \<Rightarrow> dispatch apps ls req)
      else dispatch apps ls req)"

fun invoked :: "appConfig list \<Rightarrow> layer list \<Rightarrow> request \<Rightarrow> layer list" where
  "invoked apps [] req = []"
| "invoked apps (l # ls) req =
     (if matches l req then
        (case handler apps l req of
           Some out \<Rightarrow> [l]
         | None \<Rightarrow> l # invoked apps ls req)
      else invoked apps ls req)"



definition route :: "appConfig list \<Rightarrow> request \<Rightarrow> outcome" where
  "route apps req = dispatch apps (stack apps) req"

definition server :: "request \<Rightarrow> outcome" where
  "server req = route proxiedApps req"

subsection \<open>The response that reaches the client\<close>

text \<open>
  The transport either reports a connection failure (\<open>None\<close>) or hands the backend's
  status and headers to \<open>onProxyRes\<close>; a backend is a function of the target and the
  path sent to it. On a failure \<^verbatim>\<open>onError\<close> answers 500 on the same response object, which
  keeps the cookie written before. On an answer the transport copies every header of the
  backend onto the response with \<^verbatim>\<open>res.setHeader\<close>: a \<^verbatim>\<open>Set-Cookie\<close> header of the
  backend takes the place of the one that \<^verbatim>\<open>res.cookie\<close> wrote.

  In the response, \<open>setCookieHeader\<close> is the affinity cookie when the response carries
  it, and \<open>copiedCookies\<close> are the values of a \<^verbatim>\<open>Set-Cookie\<close> header copied from the
  backend.
\<close>

type_synonym backends = "string \<Rightarrow> string \<Rightarrow> proxyRes option"

record clientResponse =
  status :: int
  locationHeader :: "string option"
  setCookieHeader :: "setCookie option"
  body :: string
  copiedCookies :: "string list"

definition respond :: "appConfig list \<Rightarrow> backends \<Rightarrow> request \<Rightarrow> clientResponse" where
  "respond apps backend req =
     (case route apps req of
        Homepage \<Rightarrow>
          \<lparr>status = 200, locationHeader = None, setCookieHeader = None,
           body = ''public/index.html'', copiedCookies = []\<rparr>
      | NotFound \<Rightarrow>
          \<lparr>status = 404, locationHeader = None, setCookieHeader = None,
           body = ''Not Found: This path does not exist on the proxy or could not be routed to an application.'',
           copiedCookies = []\<rparr>
      | Forward ck tgt p \<Rightarrow>
          (case backend tgt p of
             None \<Rightarrow>
               \<lparr>status = 500, locationHeader = None, setCookieHeader = ck,
                body = ''Proxy Error'', copiedCookies = []\<rparr>
           | Some pres \<Rightarrow>
               \<lparr>status = statusCode (onProxyRes apps req pres),
                locationHeader = location (onProxyRes apps req pres),
                setCookieHeader = (if setCookies pres = [] then ck else None),
                body = [], copiedCookies = setCookies pres\<rparr>))"

subsection \<open>Auxiliary notions for the statements\<close>

text \<open>
  A request target whose path begins with a slash and has no run of slashes and no
  \<^verbatim>\<open>http:/\<close> or \<^verbatim>\<open>https:/\<close> in it: \<open>urlJoin\<close> sends such a target as it is.
\<close>

definition plainPath :: "string \<Rightarrow> bool" where
  "plainPath url =
     (startsWith (pathname url) ''/'' \<and>
      \<not> includesStr (pathname url) ''//'' \<and>
      \<not> includesStr (pathname url) ''http:/'' \<and>
      \<not> includesStr (pathname url) ''https:/'')"

text \<open>
  A request target in origin form, of characters that \<^verbatim>\<open>url.parse\<close> and Express leave
  alone: it begins with a slash and consists of letters, digits and
  \<^verbatim>\<open>- . _ ~ / ? = & % + : , ;\<close> (so it has no fragment and no backslash).
\<close>

definition safeChar :: "char \<Rightarrow> bool" where
  "safeChar c =
     (c \<in> set ''ABCDEFGHIJKLMNOPQRSTUVWXYZabcdefghijklmnopqrstuvwxyz0123456789-._~/?=&%+:,;'')"

definition originForm :: "string \<Rightarrow> bool" where
  "originForm url = (startsWith url ''/'' \<and> list_all safeChar url)"



text \<open>
  A registry whose prefixes are distinct, in lower case, without a slash at the end, and
  none the beginning of another.
\<close>

definition prefixFree :: "appConfig list \<Rightarrow> bool" where
  "prefixFree apps =
     (distinct (map path apps) \<and>
      list_all (\<lambda>a. map toLowerCase (path a) = path a) apps \<and>
      list_all (\<lambda>a. mountPrefix (path a) = path a) apps \<and>
      list_all (\<lambda>a. list_all (\<lambda>b. prefix (path a) (path b) \<longrightarrow> path a = path b) apps) apps)"

section \<open>Properties\<close>

subsection \<open>The stack as a decision chain\<close>

lemma dispatch_explicit:
  "dispatch apps (map ExplicitProxy as @ rest) req =
     (case find (\<lambda>a. mountMatch (path a) (reqPath req)) as of
        Some T \<Rightarrow> Forward (Some (affinityCookie (path T))) (target T)
                   (outgoingPath (pathRewrite (path T) (originalUrl req)))
      | None \<Rightarrow> dispatch apps rest req)"
  by (induction as) simp_all

lemma invoked_explicit:
  "invoked apps (map ExplicitProxy as @ rest) req =
     (case find (\<lambda>a. mountMatch (path a) (reqPath req)) as of
        Some T \<Rightarrow> [ExplicitProxy T]
      | None \<Rightarrow> invoked apps rest req)"
  by (induction as) simp_all

lemma route_eq:
  "route apps req =
     (if homepageRoute req then Homepage
      else (case find (\<lambda>a. mountMatch (path a) (reqPath req)) apps of
              Some T \<Rightarrow> Forward (Some (affinityCookie (path T))) (target T)
                         (outgoingPath (pathRewrite (path T) (originalUrl req)))
            | None \<Rightarrow>
                (case fallback apps req of
                   Routed a \<Rightarrow> Forward None (target a) (outgoingPath (originalUrl req))
                 | _ \<Rightarrow> NotFound)))"
  by (simp add: route_def stack_def dispatch_explicit split: option.splits fallbackResult.splits)

lemma find_unique:
  assumes "T \<in> set xs" "P T" "\<forall>a\<in>set xs. P a \<longrightarrow> a = T"
  shows "find P xs = Some T"
  using assms
proof (induction xs)
  case Nil
  then show ?case by simp
next
  case (Cons x xs)
  show ?case
  proof (cases "P x")
    case True
    with Cons.prems(3) have "x = T" by simp
    with True show ?thesis by simp
  next
    case False
    with Cons.prems(1,2) have "T \<in> set xs" by auto
    moreover from Cons.prems(3) have "\<forall>a\<in>set xs. P a \<longrightarrow> a = T" by simp
    ultimately have "find P xs = Some T"
      using Cons.IH Cons.prems(2) by blast
    with False show ?thesis by simp
  qed
qed


lemma find_none:
  "\<forall>x\<in>set xs. \<not> P x \<Longrightarrow> find P xs = None"
  by (induction xs) simp_all

subsection \<open>Exclusive prefixes\<close>

lemma mountMatch_lower_prefix:
  assumes "mountPrefix p = p" "mountMatch p s"
  shows "prefix (map toLowerCase p) (map toLowerCase s)"
proof -
  from assms have "map toLowerCase (take (length p) s) = map toLowerCase p"
    by (simp add: mountMatch_def)
  moreover have "map toLowerCase s =
      map toLowerCase (take (length p) s) @ map toLowerCase (drop (length p) s)"
    by (metis append_take_drop_id map_append)
  ultimately show ?thesis
    by (metis prefixI)
qed

lemma mountMatch_exclusive:
  assumes "mountPrefix p = p" "mountPrefix q = q" "mountMatch p s" "mountMatch q s"
  shows "prefix (map toLowerCase p) (map toLowerCase q) \<or>
         prefix (map toLowerCase q) (map toLowerCase p)"
  using mountMatch_lower_prefix[OF assms(1,3)] mountMatch_lower_prefix[OF assms(2,4)]
  by (rule prefix_same_cases)

lemma mountMatch_append:
  assumes "mountPrefix p = p" "case r of [] \<Rightarrow> True | c # _ \<Rightarrow> c = CHR ''/''"
  shows "mountMatch p (p @ r)"
  using assms by (simp add: mountMatch_def)

lemma lower_paths:
  "map toLowerCase ''/movie-hub'' = ''/movie-hub''"
  "map toLowerCase ''/todo-list'' = ''/todo-list''"
  "map toLowerCase ''/youtube-ai-quizzer'' = ''/youtube-ai-quizzer''"
  "map toLowerCase ''/mcq'' = ''/mcq''"
  "map toLowerCase ''/bookmark-manager'' = ''/bookmark-manager''"
  by code_simp+

lemma prefixFree_proxiedApps: "prefixFree proxiedApps"
proof -
  have "distinct (map path proxiedApps)"
    by (simp add: proxiedApps_def)
  moreover have "list_all (\<lambda>a. map toLowerCase (path a) = path a) proxiedApps"
    by (simp add: proxiedApps_def lower_paths del: list.map(2))
  moreover have "list_all (\<lambda>a. mountPrefix (path a) = path a) proxiedApps"
    by (simp add: proxiedApps_def mountPrefix_def)
  moreover have "list_all (\<lambda>a. list_all (\<lambda>b. prefix (path a) (path b) \<longrightarrow> path a = path b)
      proxiedApps) proxiedApps"
    by (simp add: proxiedApps_def)
  ultimately show ?thesis
    by (simp add: prefixFree_def)
qed

lemma prefixFree_mountPrefix:
  "prefixFree apps \<Longrightarrow> a \<in> set apps \<Longrightarrow> mountPrefix (path a) = path a"
  by (simp add: prefixFree_def list_all_iff)

lemma prefixFree_same:
  assumes "prefixFree apps" "a \<in> set apps" "b \<in> set apps"
    and "prefix (map toLowerCase (path a)) (map toLowerCase (path b)) \<or>
         prefix (map toLowerCase (path b)) (map toLowerCase (path a))"
  shows "a = b"
proof -
  from assms(1-3) have low: "map toLowerCase (path a) = path a" "map toLowerCase (path b) = path b"
    by (simp_all add: prefixFree_def list_all_iff)
  from assms(1-3) have
    ab: "prefix (path a) (path b) \<longrightarrow> path a = path b" and
    ba: "prefix (path b) (path a) \<longrightarrow> path b = path a"
    by (simp_all add: prefixFree_def list_all_iff)
  from assms(4) low ab ba have "path a = path b"
    by auto
  moreover from assms(1) have "inj_on path (set apps)"
    by (simp add: prefixFree_def distinct_map)
  ultimately show ?thesis
    using assms(2,3) by (simp add: inj_on_def)
qed

lemma mount_unique:
  assumes "prefixFree apps" "T \<in> set apps" "mountMatch (path T) s"
  shows "find (\<lambda>a. mountMatch (path a) s) apps = Some T"
proof (rule find_unique[OF assms(2)])
  show "mountMatch (path T) s" by (rule assms(3))
next
  show "\<forall>a\<in>set apps. mountMatch (path a) s \<longrightarrow> a = T"
  proof (intro ballI impI)
    fix a assume a: "a \<in> set apps" "mountMatch (path a) s"
    have "prefix (map toLowerCase (path a)) (map toLowerCase (path T)) \<or>
          prefix (map toLowerCase (path T)) (map toLowerCase (path a))"
      by (rule mountMatch_exclusive[OF prefixFree_mountPrefix[OF assms(1) a(1)]
            prefixFree_mountPrefix[OF assms(1,2)] a(2) assms(3)])
    then show "a = T"
      by (rule prefixFree_same[OF assms(1) a(1) assms(2)])
  qed
qed

lemma startsWith_unique:
  assumes "prefixFree apps" "T \<in> set apps" "startsWith url (path T)"
  shows "find (\<lambda>a. startsWith url (path a)) apps = Some T"
proof (rule find_unique[OF assms(2)])
  show "startsWith url (path T)" by (rule assms(3))
next
  show "\<forall>a\<in>set apps. startsWith url (path a) \<longrightarrow> a = T"
  proof (intro ballI impI)
    fix a assume a: "a \<in> set apps" "startsWith url (path a)"
    from a(2) assms(3) have "prefix (path a) (path T) \<or> prefix (path T) (path a)"
      unfolding startsWith_def by (rule prefix_same_cases)
    then have "prefix (map toLowerCase (path a)) (map toLowerCase (path T)) \<or>
               prefix (map toLowerCase (path T)) (map toLowerCase (path a))"
      by (auto intro: map_mono_prefix)
    then show "a = T"
      by (rule prefixFree_same[OF assms(1) a(1) assms(2)])
  qed
qed

subsection \<open>The path that is sent\<close>

lemma collapseSlashes_id:
  "\<not> sublist ''//'' s \<Longrightarrow> collapseSlashes s = s"
proof (induction s rule: collapseSlashes.induct)
  case (1 a b cs)
  from "1.prems" have nb: "\<not> sublist ''//'' (b # cs)" and np: "\<not> prefix ''//'' (a # b # cs)"
    by (simp_all add: sublist_Cons_right)
  from np have "\<not> (a = CHR ''/'' \<and> b = CHR ''/'')"
    by auto
  with "1.IH"(2) nb show ?case
    by auto
qed simp_all

lemma replaceFirst_id:
  "pat \<noteq> [] \<Longrightarrow> \<not> sublist pat s \<Longrightarrow> replaceFirst pat rep s = s"
  by (induction s) (auto simp: sublist_Cons_right)

lemma pathname_append:
  "CHR ''?'' \<notin> set p \<Longrightarrow> pathname (p @ s) = p @ pathname s"
  unfolding pathname_def by (induction p) auto

lemma pathname_query: "pathname url @ dropWhile (\<lambda>c. c \<noteq> CHR ''?'') url = url"
  by (simp add: pathname_def)

lemma urlJoin_root:
  "urlJoin ''/'' url =
     replaceFirst ''https:/'' ''https://''
       (replaceFirst ''http:/'' ''http://'' (collapseSlashes (''//'' @ pathname url)))
     @ dropWhile (\<lambda>c. c \<noteq> CHR ''?'') url"
proof (cases "pathname url")
  case Nil
  then show ?thesis
    by (simp add: urlJoin_def)
next
  case (Cons c cs)
  then show ?thesis
    by (simp add: urlJoin_def del: replaceFirst.simps collapseSlashes.simps)
qed

lemma urlJoin_slash:
  "urlJoin ''/'' (CHR ''/'' # s) = urlJoin ''/'' s"
proof -
  have "collapseSlashes (''//'' @ CHR ''/'' # pathname s) = collapseSlashes (''//'' @ pathname s)"
    by simp
  moreover have "pathname (CHR ''/'' # s) = CHR ''/'' # pathname s"
    by (simp add: pathname_def)
  ultimately show ?thesis
    by (simp add: urlJoin_root del: replaceFirst.simps collapseSlashes.simps)
qed

lemma urlParsePath_slash:
  "urlParsePath (CHR ''/'' # s) = CHR ''/'' # urlParsePath s"
  by (simp add: urlParsePath_def urlParsePathname_def stripFragment_def pathname_def
        forwardSlashes_def)

lemma outgoingPath_rewritten:
  "outgoingPath (CHR ''/'' # s) = outgoingPath s"
  by (simp add: outgoingPath_def urlParsePath_slash urlJoin_slash)

lemma safeChar_no_fragment: "safeChar c \<Longrightarrow> c \<noteq> CHR ''#''"
  by (auto simp: safeChar_def)

lemma safeChar_no_backslash: "safeChar c \<Longrightarrow> c \<noteq> CHR 0x5C"
  by (auto simp: safeChar_def)

lemma urlParsePath_safe:
  assumes "list_all safeChar s"
  shows "urlParsePath s = s"
proof -
  from assms have "\<forall>c\<in>set s. c \<noteq> CHR ''#''"
    using safeChar_no_fragment by (auto simp: list_all_iff)
  then have f: "stripFragment s = s"
    by (simp add: stripFragment_def takeWhile_eq_all_conv)
  from assms have "\<forall>c\<in>set (pathname s). c \<noteq> CHR 0x5C"
    using safeChar_no_backslash set_takeWhileD by (fastforce simp: list_all_iff pathname_def)
  then have "forwardSlashes (pathname s) = pathname s"
    by (simp add: forwardSlashes_def map_idI)
  with f show ?thesis
    by (simp add: urlParsePath_def urlParsePathname_def pathname_query)
qed

lemma reqPath_safe:
  assumes "list_all safeChar (originalUrl req)"
  shows "reqPath req = pathname (originalUrl req)"
proof -
  from assms have "CHR ''#'' \<notin> set (originalUrl req)"
    using safeChar_no_fragment by (auto simp: list_all_iff)
  then show ?thesis
    by (simp add: reqPath_def)
qed

lemma outgoingPath_no_path:
  assumes "list_all safeChar s" "pathname s = []"
  shows "outgoingPath s = CHR ''/'' # s"
  using assms(2) pathname_query[of s]
  by (simp add: outgoingPath_def urlParsePath_safe[OF assms(1)] urlJoin_def)

lemma outgoingPath_plain:
  assumes "list_all safeChar s" "plainPath s"
  shows "outgoingPath s = s"
proof -
  from assms(2) obtain p where p: "pathname s = CHR ''/'' # p"
    by (auto simp: plainPath_def startsWith_def prefix_def)
  from assms(2) have ns: "\<not> sublist ''//'' (pathname s)"
    and nh: "\<not> sublist ''http:/'' (pathname s)"
    and nhs: "\<not> sublist ''https:/'' (pathname s)"
    by (simp_all add: plainPath_def includesStr_def)
  have "collapseSlashes (''//'' @ pathname s) = collapseSlashes (pathname s)"
    by (simp add: p)
  also have "\<dots> = pathname s"
    by (rule collapseSlashes_id[OF ns])
  finally have "collapseSlashes (''//'' @ pathname s) = pathname s" .
  moreover have "replaceFirst ''http:/'' ''http://'' (pathname s) = pathname s"
    by (rule replaceFirst_id[OF _ nh]) simp
  moreover have "replaceFirst ''https:/'' ''https://'' (pathname s) = pathname s"
    by (rule replaceFirst_id[OF _ nhs]) simp
  ultimately show ?thesis
    by (simp add: outgoingPath_def urlParsePath_safe[OF assms(1)] urlJoin_root pathname_query
          del: replaceFirst.simps collapseSlashes.simps)
qed

lemma pathRewrite_prefixed: "pathRewrite p (p @ s) = ''/'' @ s"
  by (simp add: pathRewrite_def)

subsection \<open>The registry of the source\<close>

lemma proxiedApps_no_query:
  "T \<in> set proxiedApps \<Longrightarrow> CHR ''?'' \<notin> set (path T) \<and> CHR ''#'' \<notin> set (path T)"
  by (auto simp: proxiedApps_def)

lemma proxiedApps_not_root:
  "T \<in> set proxiedApps \<Longrightarrow> \<not> mountMatch (path T) ''/''"
  by (auto simp: proxiedApps_def mountMatch_def mountPrefix_def)

lemma proxiedApps_path_nonempty:
  "T \<in> set proxiedApps \<Longrightarrow> path T \<noteq> []"
  by (auto simp: proxiedApps_def)

lemma explicit_route:
  assumes "T \<in> set proxiedApps" "mountMatch (path T) (reqPath req)"
  shows "route proxiedApps req =
           Forward (Some (affinityCookie (path T))) (target T)
             (outgoingPath (pathRewrite (path T) (originalUrl req)))"
proof -
  have "\<not> homepageRoute req"
    using assms proxiedApps_not_root by (auto simp: homepageRoute_def)
  moreover have "find (\<lambda>a. mountMatch (path a) (reqPath req)) proxiedApps = Some T"
    by (rule mount_unique[OF prefixFree_proxiedApps assms])
  ultimately show ?thesis
    by (simp add: route_eq)
qed

lemma fallback_appPrefix:
  assumes "fallback apps req = Routed T"
    and "\<forall>r. referer req = Some r \<longrightarrow> r = [] \<or> list_ex (\<lambda>a. includesStr r (path a)) apps"
  shows "appPrefix apps req = Some (path T)"
proof -
  from assms(1) have e: "\<not> list_ex (\<lambda>a. startsWith (originalUrl req) (path a)) apps"
    and s: "sourceAppConfig apps req = Some T"
    by (simp_all add: fallback_def split: if_splits option.splits)
  from e have n: "find (\<lambda>a. startsWith (originalUrl req) (path a)) apps = None"
    by (simp add: find_None_iff list_ex_iff)
  show ?thesis
  proof (cases "referer req")
    case None
    with s n show ?thesis
      by (auto simp: sourceAppConfig_def appPrefix_def split: if_splits)
  next
    case (Some r)
    show ?thesis
    proof (cases "r = []")
      case True
      with Some s n show ?thesis
        by (auto simp: sourceAppConfig_def appPrefix_def split: if_splits)
    next
      case False
      with Some assms(2) have "list_ex (\<lambda>a. includesStr r (path a)) apps"
        by simp
      then have "find (\<lambda>a. includesStr r (path a)) apps \<noteq> None"
        by (auto simp: find_None_iff list_ex_iff)
      with Some False s n show ?thesis
        by (auto simp: sourceAppConfig_def appPrefix_def Let_def split: if_splits)
    qed
  qed
qed

section \<open>The claims of the specification\<close>

text \<open>
  C1. The specification has every prefix match made at a path-segment boundary, so that
  \<^verbatim>\<open>/movie-hub-extra\<close> never counts as \<^verbatim>\<open>/movie-hub\<close>: in the explicit router, in the
  fallback's explicit-prefix check and in the redirect rewriter. The explicit router does so
  (Express mounts at segment boundaries). The other two use \<^verbatim>\<open>startsWith\<close>: for
  \<^verbatim>\<open>GET /movie-hub-extra/list\<close> with the affinity cookie \<^verbatim>\<open>/todo-list\<close>, no explicit
  route matches, yet the fallback takes the request for an explicit one and passes it on to
  the 404 handler instead of resolving it by its cookie, and the rewriter's prefix match
  picks \<^verbatim>\<open>/movie-hub\<close>.
\<close>

theorem segment_boundary_missed_by_startsWith:
  "\<not> mountMatch ''/movie-hub''
      (reqPath \<lparr>httpMethod = ''GET'', originalUrl = ''/movie-hub-extra/list'', referer = None,
                 cookie = Some ''/todo-list''\<rparr>) \<and>
   invoked proxiedApps (stack proxiedApps)
      \<lparr>httpMethod = ''GET'', originalUrl = ''/movie-hub-extra/list'', referer = None,
         cookie = Some ''/todo-list''\<rparr> = [FallbackProxy, NotFoundHandler] \<and>
   fallback proxiedApps
      \<lparr>httpMethod = ''GET'', originalUrl = ''/movie-hub-extra/list'', referer = None,
         cookie = Some ''/todo-list''\<rparr> = ExplicitProxiedPath \<and>
   server \<lparr>httpMethod = ''GET'', originalUrl = ''/movie-hub-extra/list'', referer = None,
            cookie = Some ''/todo-list''\<rparr> = NotFound \<and>
   appPrefix proxiedApps
      \<lparr>httpMethod = ''GET'', originalUrl = ''/movie-hub-extra/list'', referer = None,
         cookie = Some ''/todo-list''\<rparr> = Some ''/movie-hub''"
  by code_simp

text \<open>
  Against C2 as stated (a \<^verbatim>\<open>Location\<close> that already starts with the tenant's prefix is
  left alone): the answer \<^verbatim>\<open>302 Location: /movie-hub/home\<close> to a request for
  \<^verbatim>\<open>/movie-hub/login\<close> leaves with \<^verbatim>\<open>Location: /movie-hub/movie-hub/home\<close>.
\<close>

theorem redirect_double_prefixed:
  "onProxyRes proxiedApps
      \<lparr>httpMethod = ''GET'', originalUrl = ''/movie-hub/login'', referer = None, cookie = None\<rparr>
      \<lparr>statusCode = 302, location = Some ''/movie-hub/home'', setCookies = []\<rparr> =
   \<lparr>statusCode = 302, location = Some ''/movie-hub/movie-hub/home'', setCookies = []\<rparr>"
  by code_simp

text \<open>
  C2, as the code has it. Take a response with a redirect status (300 to 399) and a
  root-relative \<^verbatim>\<open>Location\<close>, answering a request routed to a registered tenant \<open>T\<close>:
  by its explicit route, the URL starting with the prefix of \<open>T\<close>, or by the fallback,
  the referer being absent, empty, or one that contains a registered prefix. The rewriter
  puts the prefix of \<open>T\<close> in front of the \<^verbatim>\<open>Location\<close>, whatever the \<^verbatim>\<open>Location\<close>
  starts with: a \<^verbatim>\<open>Location\<close> that has the prefix already gets it a second time, and
  rewriting is not idempotent.
\<close>

theorem redirect_prefixed_unconditionally:
  assumes "T \<in> set proxiedApps"
    and "startsWith (originalUrl req) (path T) \<or>
         (fallback proxiedApps req = Routed T \<and>
          (\<forall>r. referer req = Some r \<longrightarrow>
             r = [] \<or> list_ex (\<lambda>a. includesStr r (path a)) proxiedApps))"
    and "300 \<le> statusCode pres" "statusCode pres < 400"
    and "location pres = Some loc" "startsWith loc ''/''"
  shows "onProxyRes proxiedApps req pres = pres\<lparr>location := Some (path T @ loc)\<rparr>"
proof -
  from assms(2) have "appPrefix proxiedApps req = Some (path T)"
  proof
    assume "startsWith (originalUrl req) (path T)"
    then have "find (\<lambda>a. startsWith (originalUrl req) (path a)) proxiedApps = Some T"
      by (rule startsWith_unique[OF prefixFree_proxiedApps assms(1)])
    then show ?thesis
      by (simp add: appPrefix_def)
  next
    assume "fallback proxiedApps req = Routed T \<and>
          (\<forall>r. referer req = Some r \<longrightarrow>
             r = [] \<or> list_ex (\<lambda>a. includesStr r (path a)) proxiedApps)"
    then show ?thesis
      using fallback_appPrefix by blast
  qed
  moreover from assms(6) have "loc \<noteq> []"
    by (auto simp: startsWith_def)
  moreover note proxiedApps_path_nonempty[OF assms(1)]
  ultimately show ?thesis
    using assms(3-6) by (simp add: onProxyRes_def)
qed

text \<open>
  The theorem at work, on the scenario of the specification: \<^verbatim>\<open>POST /submit\<close> with the
  cookie \<^verbatim>\<open>/mcq\<close> and no referer, routed by the fallback and answered by
  \<^verbatim>\<open>302 Location: /done\<close>.
\<close>

theorem redirect_prefixed_unconditionally_witness:
  "\<lparr>name = ''AI MCQ Generator'', path = ''/mcq'', target = ''http://34.134.191.116:5002''\<rparr>
     \<in> set proxiedApps \<and>
   fallback proxiedApps
     \<lparr>httpMethod = ''POST'', originalUrl = ''/submit'', referer = None, cookie = Some ''/mcq''\<rparr> =
     Routed \<lparr>name = ''AI MCQ Generator'', path = ''/mcq'',
              target = ''http://34.134.191.116:5002''\<rparr> \<and>
   startsWith ''/done'' ''/'' \<and>
   onProxyRes proxiedApps
     \<lparr>httpMethod = ''POST'', originalUrl = ''/submit'', referer = None, cookie = Some ''/mcq''\<rparr>
     \<lparr>statusCode = 302, location = Some ''/done'', setCookies = []\<rparr> =
     \<lparr>statusCode = 302, location = Some ''/mcq/done'', setCookies = []\<rparr>"
proof -
  let ?T = "\<lparr>name = ''AI MCQ Generator'', path = ''/mcq'',
              target = ''http://34.134.191.116:5002''\<rparr>"
  let ?req = "\<lparr>httpMethod = ''POST'', originalUrl = ''/submit'', referer = None,
                 cookie = Some ''/mcq''\<rparr>"
  let ?pres = "\<lparr>statusCode = 302, location = Some ''/done'', setCookies = []\<rparr>"
  have a: "?T \<in> set proxiedApps"
    by (simp add: proxiedApps_def)
  have f: "fallback proxiedApps ?req = Routed ?T"
    by code_simp
  then have b: "startsWith (originalUrl ?req) (path ?T) \<or>
         (fallback proxiedApps ?req = Routed ?T \<and>
          (\<forall>r. referer ?req = Some r \<longrightarrow>
             r = [] \<or> list_ex (\<lambda>a. includesStr r (path a)) proxiedApps))"
    by simp
  have c: "300 \<le> statusCode ?pres" and d: "statusCode ?pres < 400"
    by simp_all
  have e: "location ?pres = Some ''/done''"
    by simp
  have g: "startsWith ''/done'' ''/''"
    by (simp add: startsWith_def)
  show ?thesis
    using a f g redirect_prefixed_unconditionally[OF a b c d e g] by simp
qed

text \<open>
  Against C3 as stated (the response to a request routed by the fallback refreshes the
  affinity cookie): \<^verbatim>\<open>POST /submit\<close> with the cookie \<^verbatim>\<open>/mcq\<close> is forwarded to the MCQ
  backend and no cookie is written.
\<close>

theorem fallback_writes_no_cookie:
  "server \<lparr>httpMethod = ''POST'', originalUrl = ''/submit'', referer = None,
            cookie = Some ''/mcq''\<rparr> =
     Forward None ''http://34.134.191.116:5002'' ''/submit''"
  by code_simp

text \<open>
  C3, as the code has it. For every request in origin form that no explicit route takes
  and that the fallback resolves to a tenant \<open>T\<close>, \<open>T\<close> is registered and was found
  through the referer or through the affinity cookie; the request is forwarded to the
  target of \<open>T\<close> with no path rewriting, so that the path sent is the one the transport
  makes of the original URL, which is the original URL itself when that is plain; and the
  response carries no affinity cookie, which only the explicit routes write.
\<close>

theorem fallback_forwards_unrewritten:
  assumes "originForm (originalUrl req)"
    and "\<not> homepageRoute req"
    and "\<forall>a\<in>set proxiedApps. \<not> mountMatch (path a) (reqPath req)"
    and "fallback proxiedApps req = Routed T"
  shows "T \<in> set proxiedApps \<and>
         ((\<exists>r. referer req = Some r \<and> includesStr r (path T)) \<or> cookie req = Some (path T)) \<and>
         route proxiedApps req = Forward None (target T) (outgoingPath (originalUrl req)) \<and>
         (plainPath (originalUrl req) \<longrightarrow> outgoingPath (originalUrl req) = originalUrl req) \<and>
         setCookieHeader (respond proxiedApps backend req) = None"
proof -
  from assms(4) have s: "sourceAppConfig proxiedApps req = Some T"
    by (simp add: fallback_def split: if_splits option.splits)
  then have "(\<exists>r. referer req = Some r \<and>
                 find (\<lambda>a. includesStr r (path a)) proxiedApps = Some T) \<or>
             find (\<lambda>a. Some (path a) = cookie req) proxiedApps = Some T"
    by (auto simp: sourceAppConfig_def Let_def split: option.splits if_splits)
  then have 1: "T \<in> set proxiedApps" and
    2: "(\<exists>r. referer req = Some r \<and> includesStr r (path T)) \<or> cookie req = Some (path T)"
    by (auto simp: find_Some_iff)
  have "find (\<lambda>a. mountMatch (path a) (reqPath req)) proxiedApps = None"
    by (rule find_none[OF assms(3)])
  with assms(2,4) have 3: "route proxiedApps req =
      Forward None (target T) (outgoingPath (originalUrl req))"
    by (simp add: route_eq)
  from 3 have 4: "setCookieHeader (respond proxiedApps backend req) = None"
    by (simp add: respond_def split: option.splits)
  from assms(1) have "list_all safeChar (originalUrl req)"
    by (simp add: originForm_def)
  then have 5: "plainPath (originalUrl req) \<longrightarrow> outgoingPath (originalUrl req) = originalUrl req"
    by (simp add: outgoingPath_plain)
  from 1 2 3 4 5 show ?thesis
    by simp
qed

text \<open>
  The theorem at work: \<^verbatim>\<open>POST /submit\<close> with the cookie \<^verbatim>\<open>/mcq\<close>.
\<close>

theorem fallback_forwards_unrewritten_witness:
  "originForm ''/submit'' \<and>
   fallback proxiedApps
     \<lparr>httpMethod = ''POST'', originalUrl = ''/submit'', referer = None, cookie = Some ''/mcq''\<rparr> =
     Routed \<lparr>name = ''AI MCQ Generator'', path = ''/mcq'',
              target = ''http://34.134.191.116:5002''\<rparr> \<and>
   plainPath ''/submit'' \<and>
   route proxiedApps
     \<lparr>httpMethod = ''POST'', originalUrl = ''/submit'', referer = None, cookie = Some ''/mcq''\<rparr> =
     Forward None ''http://34.134.191.116:5002'' ''/submit'' \<and>
   setCookieHeader
     (respond proxiedApps
        (\<lambda>t p. Some \<lparr>statusCode = 200, location = None, setCookies = []\<rparr>)
        \<lparr>httpMethod = ''POST'', originalUrl = ''/submit'', referer = None,
           cookie = Some ''/mcq''\<rparr>) = None"
proof -
  let ?req = "\<lparr>httpMethod = ''POST'', originalUrl = ''/submit'', referer = None,
                 cookie = Some ''/mcq''\<rparr>"
  let ?T = "\<lparr>name = ''AI MCQ Generator'', path = ''/mcq'',
              target = ''http://34.134.191.116:5002''\<rparr>"
  have o: "originForm ''/submit''"
    by code_simp
  then have o': "originForm (originalUrl ?req)"
    by simp
  have h: "\<not> homepageRoute ?req"
    by (simp add: homepageRoute_def)
  have "list_all (\<lambda>a. \<not> mountMatch (path a) (reqPath ?req)) proxiedApps"
    by code_simp
  then have a: "\<forall>a\<in>set proxiedApps. \<not> mountMatch (path a) (reqPath ?req)"
    by (simp add: list_all_iff)
  have f: "fallback proxiedApps ?req = Routed ?T"
    by code_simp
  have p: "plainPath ''/submit''"
    by code_simp
  show ?thesis
    using o f p fallback_forwards_unrewritten[OF o' h a f,
        of "\<lambda>t p. Some \<lparr>statusCode = 200, location = None, setCookies = []\<rparr>"]
    by simp
qed

text \<open>
  C4. The specification has the redirect of a routed request rewritten with the prefix of
  the tenant the request was routed to, also when a \<^verbatim>\<open>Referer\<close> without any registered
  prefix is present and the affinity cookie decided the routing. The fallback does fall
  through from such a referer to the cookie; \<open>onProxyRes\<close> derives the tenant again, in an
  \<^verbatim>\<open>else if\<close> chain that never looks at the cookie once a referer is present. So
  \<^verbatim>\<open>POST /submit\<close> with \<^verbatim>\<open>Referer: http://proxy.example/\<close> and the cookie \<^verbatim>\<open>/mcq\<close>
  is forwarded to the MCQ backend, and its answer \<^verbatim>\<open>302 Location: /done\<close> reaches the
  client unchanged, not as \<^verbatim>\<open>/mcq/done\<close>.
\<close>

theorem referer_without_prefix_blocks_cookie:
  "server \<lparr>httpMethod = ''POST'', originalUrl = ''/submit'',
            referer = Some ''http://proxy.example/'', cookie = Some ''/mcq''\<rparr> =
     Forward None ''http://34.134.191.116:5002'' ''/submit'' \<and>
   onProxyRes proxiedApps
      \<lparr>httpMethod = ''POST'', originalUrl = ''/submit'',
         referer = Some ''http://proxy.example/'', cookie = Some ''/mcq''\<rparr>
      \<lparr>statusCode = 302, location = Some ''/done'', setCookies = []\<rparr> =
     \<lparr>statusCode = 302, location = Some ''/done'', setCookies = []\<rparr>"
  by code_simp




text \<open>
  Against C6 as stated (every suffix is forwarded as it is): of \<^verbatim>\<open>/movie-hub/a//b\<close> the
  backend receives \<^verbatim>\<open>/a/b\<close>, not \<^verbatim>\<open>/a//b\<close>. The rewrite rule puts \<^verbatim>\<open>/\<close> in the
  place of the prefix, and \<open>urlJoin\<close> collapses every run of slashes, that of the suffix
  with the one the rule made.
\<close>

theorem repeated_slashes_collapsed:
  "server \<lparr>httpMethod = ''GET'', originalUrl = ''/movie-hub/a//b'', referer = None,
            cookie = None\<rparr> =
     Forward (Some (affinityCookie ''/movie-hub'')) ''http://34.134.191.116:4002'' ''/a/b''"
  by code_simp

text \<open>
  C6, as the code has it. For every registered tenant \<open>T\<close> and every suffix \<open>s\<close> of safe
  characters (those of a request target in origin form: no fragment, no backslash) that is
  plain (its path begins with a slash and has no run of slashes and no \<^verbatim>\<open>http:/\<close> or
  \<^verbatim>\<open>https:/\<close> in it), a request for the prefix of \<open>T\<close> followed by \<open>s\<close> is forwarded to
  the target of \<open>T\<close> with the path \<open>s\<close>: the prefix is removed once. When the suffix has no
  path (it is empty or only a query string), the path sent is \<^verbatim>\<open>/\<close> followed by the
  suffix.
\<close>

theorem explicit_prefix_removed_once:
  assumes "T \<in> set proxiedApps" "list_all safeChar s" "pathname s = [] \<or> plainPath s"
  shows "server \<lparr>httpMethod = m, originalUrl = path T @ s, referer = r, cookie = c\<rparr> =
           Forward (Some (affinityCookie (path T))) (target T)
             (if pathname s = [] then CHR ''/'' # s else s)"
proof -
  let ?req = "\<lparr>httpMethod = m, originalUrl = path T @ s, referer = r, cookie = c\<rparr>"
  from assms(2) have "CHR ''#'' \<notin> set s"
    using safeChar_no_fragment by (auto simp: list_all_iff)
  with proxiedApps_no_query[OF assms(1)] have "CHR ''#'' \<notin> set (originalUrl ?req)"
    by simp
  then have "reqPath ?req = pathname (path T @ s)"
    by (simp add: reqPath_def)
  then have rp: "reqPath ?req = path T @ pathname s"
    using proxiedApps_no_query[OF assms(1)] by (simp add: pathname_append)
  from assms(3) have "case pathname s of [] \<Rightarrow> True | c # _ \<Rightarrow> c = CHR ''/''"
    by (auto simp: plainPath_def startsWith_def prefix_def split: list.splits)
  then have "mountMatch (path T) (reqPath ?req)"
    unfolding rp
    by (rule mountMatch_append[OF prefixFree_mountPrefix[OF prefixFree_proxiedApps assms(1)]])
  from explicit_route[OF assms(1) this]
  have "server ?req = Forward (Some (affinityCookie (path T))) (target T) (outgoingPath s)"
    by (simp add: server_def pathRewrite_prefixed outgoingPath_rewritten)
  moreover have "outgoingPath s = (if pathname s = [] then CHR ''/'' # s else s)"
    using assms(3) outgoingPath_no_path[OF assms(2)] outgoingPath_plain[OF assms(2)] by auto
  ultimately show ?thesis
    by simp
qed

text \<open>
  The theorem at work: \<^verbatim>\<open>/movie-hub/x?y=1\<close> and \<^verbatim>\<open>/movie-hub\<close>.
\<close>

theorem explicit_prefix_removed_once_witness:
  "\<lparr>name = ''Movie Hub'', path = ''/movie-hub'', target = ''http://34.134.191.116:4002''\<rparr>
     \<in> set proxiedApps \<and>
   list_all safeChar ''/x?y=1'' \<and>
   plainPath ''/x?y=1'' \<and>
   server \<lparr>httpMethod = ''GET'', originalUrl = ''/movie-hub/x?y=1'', referer = None,
            cookie = None\<rparr> =
     Forward (Some (affinityCookie ''/movie-hub'')) ''http://34.134.191.116:4002'' ''/x?y=1'' \<and>
   server \<lparr>httpMethod = ''GET'', originalUrl = ''/movie-hub'', referer = None, cookie = None\<rparr> =
     Forward (Some (affinityCookie ''/movie-hub'')) ''http://34.134.191.116:4002'' ''/''"
proof -
  let ?T = "\<lparr>name = ''Movie Hub'', path = ''/movie-hub'',
              target = ''http://34.134.191.116:4002''\<rparr>"
  have a: "?T \<in> set proxiedApps"
    by (simp add: proxiedApps_def)
  have s: "list_all safeChar ''/x?y=1''"
    by code_simp
  have s0: "list_all safeChar []"
    by simp
  have p: "plainPath ''/x?y=1''"
    by code_simp
  have q: "pathname ''/x?y=1'' \<noteq> []"
    by (simp add: pathname_def)
  have e: "pathname [] = []"
    by (simp add: pathname_def)
  from explicit_prefix_removed_once[OF a s, of "''GET''" None None] p q
  have 1: "server \<lparr>httpMethod = ''GET'', originalUrl = ''/movie-hub/x?y=1'', referer = None,
                    cookie = None\<rparr> =
      Forward (Some (affinityCookie ''/movie-hub'')) ''http://34.134.191.116:4002'' ''/x?y=1''"
    by simp
  from explicit_prefix_removed_once[OF a s0, of "''GET''" None None] e
  have 2: "server \<lparr>httpMethod = ''GET'', originalUrl = ''/movie-hub'', referer = None,
                    cookie = None\<rparr> =
      Forward (Some (affinityCookie ''/movie-hub'')) ''http://34.134.191.116:4002'' ''/''"
    by simp
  from a s p 1 2 show ?thesis
    by simp
qed

text \<open>
  C7. The specification has every explicitly routed request answered with the affinity
  cookie. The explicit route does write it (\<^verbatim>\<open>res.cookie\<close>, before it hands the request
  to the proxy), but the transport then copies the headers of the backend onto the same
  response, and a \<^verbatim>\<open>Set-Cookie\<close> header of the backend takes the place of the one the
  route wrote. So for \<^verbatim>\<open>GET /movie-hub/list\<close>, answered by the backend with status 200
  and \<^verbatim>\<open>Set-Cookie: session=abc\<close>, the route writes \<^verbatim>\<open>x-proxied-app=/movie-hub\<close> and
  the client receives \<^verbatim>\<open>session=abc\<close> only.
\<close>

theorem backend_cookie_replaces_affinity_cookie:
  "server \<lparr>httpMethod = ''GET'', originalUrl = ''/movie-hub/list'', referer = None,
            cookie = None\<rparr> =
     Forward (Some \<lparr>cookieName = ''x-proxied-app'', cookieValue = ''/movie-hub'',
                     maxAge = 3600000, httpOnly = True, cookiePath = ''/''\<rparr>)
       ''http://34.134.191.116:4002'' ''/list'' \<and>
   respond proxiedApps
     (\<lambda>t p. Some \<lparr>statusCode = 200, location = None, setCookies = [''session=abc'']\<rparr>)
     \<lparr>httpMethod = ''GET'', originalUrl = ''/movie-hub/list'', referer = None, cookie = None\<rparr> =
     \<lparr>status = 200, locationHeader = None, setCookieHeader = None, body = [],
      copiedCookies = [''session=abc'']\<rparr>"
  by code_simp

text \<open>
  C8. A \<^verbatim>\<open>GET\<close> request for \<^verbatim>\<open>/\<close> is answered by the landing page, whatever its
  cookie and referer and whatever the registry: the landing-page route is the only layer
  that runs, and the fallback itself, were it reached, would leave by its first
  \<^verbatim>\<open>return next()\<close>, before it looks at the referer or the cookie.
\<close>

theorem homepage_bypasses_resolver:
  assumes "httpMethod req = ''GET''" "reqPath req = ''/''"
  shows "route apps req = Homepage \<and>
         invoked apps (stack apps) req = [HomepageRoute] \<and>
         fallback apps req = HomepageCarveOut"
  using assms by (simp add: route_def stack_def homepageRoute_def fallback_def)

text \<open>
  The theorem at work: \<^verbatim>\<open>GET /?tab=2\<close> with a referer and a cookie that name the MCQ
  tenant.
\<close>

theorem homepage_bypasses_resolver_witness:
  "reqPath \<lparr>httpMethod = ''GET'', originalUrl = ''/?tab=2'',
             referer = Some ''http://proxy.example/mcq/quiz'', cookie = Some ''/mcq''\<rparr> = ''/'' \<and>
   server \<lparr>httpMethod = ''GET'', originalUrl = ''/?tab=2'',
            referer = Some ''http://proxy.example/mcq/quiz'', cookie = Some ''/mcq''\<rparr> = Homepage \<and>
   invoked proxiedApps (stack proxiedApps)
     \<lparr>httpMethod = ''GET'', originalUrl = ''/?tab=2'',
        referer = Some ''http://proxy.example/mcq/quiz'', cookie = Some ''/mcq''\<rparr> =
     [HomepageRoute] \<and>
   fallback proxiedApps
     \<lparr>httpMethod = ''GET'', originalUrl = ''/?tab=2'',
        referer = Some ''http://proxy.example/mcq/quiz'', cookie = Some ''/mcq''\<rparr> =
     HomepageCarveOut"
proof -
  let ?req = "\<lparr>httpMethod = ''GET'', originalUrl = ''/?tab=2'',
                 referer = Some ''http://proxy.example/mcq/quiz'', cookie = Some ''/mcq''\<rparr>"
  have a: "httpMethod ?req = ''GET''"
    by simp
  have b: "reqPath ?req = ''/''"
    by (simp add: reqPath_def pathname_def)
  show ?thesis
    using b homepage_bypasses_resolver[OF a b, of proxiedApps] by (simp add: server_def)
qed

text \<open>
  C9. Take a request in origin form that reaches the resolver: it is not the request for
  the landing page and no explicit route takes it. If its referer (if any) contains no
  registered prefix and its affinity cookie names no registered prefix, the cookie counts
  as absent: the request is forwarded nowhere and gets the 404 answer, as it does without
  the cookie. The outcome is a response: nothing fails.
\<close>

theorem invalid_token_as_absent:
  assumes "originForm (originalUrl req)"
    and "\<not> homepageRoute req"
    and "\<forall>a\<in>set proxiedApps. \<not> mountMatch (path a) (reqPath req)"
    and "\<forall>a\<in>set proxiedApps. \<forall>r. referer req = Some r \<longrightarrow> \<not> includesStr r (path a)"
    and "\<forall>a\<in>set proxiedApps. Some (path a) \<noteq> cookie req"
  shows "route proxiedApps req = NotFound \<and>
         route proxiedApps (req\<lparr>cookie := None\<rparr>) = NotFound \<and>
         respond proxiedApps backend req =
           \<lparr>status = 404, locationHeader = None, setCookieHeader = None,
            body = ''Not Found: This path does not exist on the proxy or could not be routed to an application.'',
            copiedCookies = []\<rparr>"
proof -
  have m: "find (\<lambda>a. mountMatch (path a) (reqPath req)) proxiedApps = None"
    by (rule find_none[OF assms(3)])
  have c: "find (\<lambda>a. Some (path a) = cookie req) proxiedApps = None"
    by (rule find_none[OF assms(5)])
  have r: "\<And>r. referer req = Some r \<Longrightarrow>
      find (\<lambda>a. includesStr r (path a)) proxiedApps = None"
    using assms(4) by (intro find_none) simp
  have s: "sourceAppConfig proxiedApps req = None"
    using c r by (simp add: sourceAppConfig_def split: option.splits)
  have s': "sourceAppConfig proxiedApps (req\<lparr>cookie := None\<rparr>) = None"
    using r by (simp add: sourceAppConfig_def split: option.splits)
  have f: "\<And>a. fallback proxiedApps req \<noteq> Routed a"
    using s by (simp add: fallback_def)
  have f': "\<And>a. fallback proxiedApps (req\<lparr>cookie := None\<rparr>) \<noteq> Routed a"
    using s' by (simp add: fallback_def)
  have h: "homepageRoute (req\<lparr>cookie := None\<rparr>) = homepageRoute req"
    and p: "reqPath (req\<lparr>cookie := None\<rparr>) = reqPath req"
    by (simp_all add: homepageRoute_def reqPath_def)
  have 1: "route proxiedApps req = NotFound"
    using assms(2) m f by (simp add: route_eq split: fallbackResult.splits)
  have 2: "route proxiedApps (req\<lparr>cookie := None\<rparr>) = NotFound"
    using assms(2) m f' by (simp add: route_eq h p split: fallbackResult.splits)
  from 1 2 show ?thesis
    by (simp add: respond_def)
qed

text \<open>
  The theorem at work: \<^verbatim>\<open>POST /submit\<close> with the cookie \<^verbatim>\<open>/no-such-app\<close>.
\<close>

theorem invalid_token_as_absent_witness:
  "originForm ''/submit'' \<and>
   route proxiedApps
     \<lparr>httpMethod = ''POST'', originalUrl = ''/submit'', referer = None,
        cookie = Some ''/no-such-app''\<rparr> = NotFound \<and>
   route proxiedApps
     \<lparr>httpMethod = ''POST'', originalUrl = ''/submit'', referer = None, cookie = None\<rparr> =
     NotFound \<and>
   status (respond proxiedApps (\<lambda>t p. None)
     \<lparr>httpMethod = ''POST'', originalUrl = ''/submit'', referer = None,
        cookie = Some ''/no-such-app''\<rparr>) = 404"
proof -
  let ?req = "\<lparr>httpMethod = ''POST'', originalUrl = ''/submit'', referer = None,
                 cookie = Some ''/no-such-app''\<rparr>"
  have o: "originForm ''/submit''"
    by code_simp
  then have o': "originForm (originalUrl ?req)"
    by simp
  have h: "\<not> homepageRoute ?req"
    by (simp add: homepageRoute_def)
  have "list_all (\<lambda>a. \<not> mountMatch (path a) (reqPath ?req)) proxiedApps"
    by code_simp
  then have a: "\<forall>a\<in>set proxiedApps. \<not> mountMatch (path a) (reqPath ?req)"
    by (simp add: list_all_iff)
  have b: "\<forall>a\<in>set proxiedApps. \<forall>r. referer ?req = Some r \<longrightarrow> \<not> includesStr r (path a)"
    by simp
  have "list_all (\<lambda>a. Some (path a) \<noteq> cookie ?req) proxiedApps"
    by code_simp
  then have c: "\<forall>a\<in>set proxiedApps. Some (path a) \<noteq> cookie ?req"
    by (simp add: list_all_iff)
  show ?thesis
    using o invalid_token_as_absent[OF o' h a b c, of "\<lambda>t p. None"] by simp
qed



end
